theory Spec2Isabelle
  imports Complex_Main "HOL-Library.Sublist"
begin

section \<open>The drawing-operation algebra\<close>

text \<open>
  A style is a string, a \<^verbatim>\<open>CanvasGradient\<close> or a \<^verbatim>\<open>CanvasPattern\<close>; the two browser
  objects are identified by a handle. JavaScript numbers are carried around unchanged by
  the drawing operations and are modelled as reals.
\<close>

datatype style = StyleString string | CanvasGradient nat | CanvasPattern nat

text \<open>
  \<^verbatim>\<open>DrawOp = FillRect | FillStyle | BeginPath | ClearRect | Arc | Stroke | Fill | StrokeStyle\<close>,
  each class with the fields of its constructor; the optional \<^verbatim>\<open>anticlockwise\<close> of
  \<^verbatim>\<open>Arc\<close> is an option.
\<close>

datatype DrawOp =
    FillRect real real real real
  | FillStyle style
  | BeginPath
  | ClearRect real real real real
  | Arc real real real real real "bool option"
  | Stroke
  | Fill
  | StrokeStyle style

text \<open>\<^verbatim>\<open>Draw = And | DrawOp\<close>: a binary composition node or a single operation.\<close>

datatype Draw = And Draw Draw | Op DrawOp

text \<open>
  The generator method \<^verbatim>\<open>gen\<close>: an \<^verbatim>\<open>And\<close> node yields everything its first child yields
  and then everything its second child yields; every other class yields itself. The
  generator is modelled by the list of the values it yields.
\<close>

fun gen :: "Draw \<Rightarrow> DrawOp list" where
  "gen (And first second) = gen first @ gen second"
| "gen (Op operation) = [operation]"

definition and_draw :: "Draw \<Rightarrow> Draw \<Rightarrow> Draw" where
  "and_draw first second = And first second"

text \<open>
  \<^verbatim>\<open>Array.prototype.reduce\<close> called without an initial value: on an empty array it throws a
  \<^verbatim>\<open>TypeError\<close>, otherwise it starts from the first element and folds the callback over
  the remaining ones from left to right. (The callback also receives the index and the
  array, which \<^verbatim>\<open>and\<close> does not read.)
\<close>

datatype error = TypeError | SyntaxError

fun reduce :: "('a \<Rightarrow> 'a \<Rightarrow> 'a) \<Rightarrow> 'a list \<Rightarrow> error + 'a" where
  "reduce f [] = Inl TypeError"
| "reduce f (x # xs) = Inr (foldl f x xs)"

definition all_draws :: "Draw list \<Rightarrow> error + Draw" where
  "all_draws draws = reduce and_draw draws"

definition fillRect :: "real \<Rightarrow> real \<Rightarrow> real \<Rightarrow> real \<Rightarrow> Draw" where
  "fillRect x y width height = Op (FillRect x y width height)"

definition fillStyle :: "style \<Rightarrow> Draw" where
  "fillStyle s = Op (FillStyle s)"

definition strokeStyle :: "style \<Rightarrow> Draw" where
  "strokeStyle s = Op (StrokeStyle s)"

definition beginPath :: Draw where
  "beginPath = Op BeginPath"

definition clearRect :: "real \<Rightarrow> real \<Rightarrow> real \<Rightarrow> real \<Rightarrow> Draw" where
  "clearRect x y width height = Op (ClearRect x y width height)"

definition arc :: "real \<Rightarrow> real \<Rightarrow> real \<Rightarrow> real \<Rightarrow> real \<Rightarrow> bool option \<Rightarrow> Draw" where
  "arc x y r sAngle eAngle anticlockwise = Op (Arc x y r sAngle eAngle anticlockwise)"

definition stroke :: Draw where
  "stroke = Op Stroke"

definition fill :: Draw where
  "fill = Op Fill"

section \<open>Tracking the pressed keys\<close>

text \<open>Of a \<^verbatim>\<open>KeyboardEvent\<close> the helpers read the field \<^verbatim>\<open>key\<close> only.\<close>

record KeyboardEvent =
  key :: string

text \<open>\<^verbatim>\<open>A.snoc\<close> of fp-ts appends one element at the end of an array.\<close>

definition snoc :: "'a list \<Rightarrow> 'a \<Rightarrow> 'a list" where
  "snoc init end = init @ [end]"

definition keyUp :: "KeyboardEvent \<Rightarrow> string list \<Rightarrow> string list" where
  "keyUp e ks = filter (\<lambda>k. k \<noteq> key e) ks"

definition keyDown :: "KeyboardEvent \<Rightarrow> string list \<Rightarrow> string list" where
  "keyDown e ks = snoc (keyUp e ks) (key e)"

section \<open>Observables\<close>

text \<open>
  The stream library (rxjs) is a substrate of the program, not part of it. An observable
  is modelled by what one subscriber sees of it: the values it emits, in order, and the
  way it ends, by a completion, by an error, or not at all.
\<close>

datatype ending = Running | Completed | Failed

datatype 'a observable = Observable (emits: "'a list") (ending: ending)

text \<open>\<^verbatim>\<open>NEVER\<close> emits nothing and never ends; \<^verbatim>\<open>of(x)\<close> emits \<^verbatim>\<open>x\<close> and completes.\<close>

definition NEVER :: "'a observable" where
  "NEVER = Observable [] Running"

definition of_obs :: "'a \<Rightarrow> 'a observable" where
  "of_obs x = Observable [x] Completed"

text \<open>
  \<^verbatim>\<open>source.pipe(concat(next))\<close> replays the source and, once the source has completed,
  goes on with \<^verbatim>\<open>next\<close>.
\<close>

definition concat_obs :: "'a observable \<Rightarrow> 'a observable \<Rightarrow> 'a observable" where
  "concat_obs next source =
     (case ending source of
        Completed \<Rightarrow> Observable (emits source @ emits next) (ending next)
      | Running \<Rightarrow> source
      | Failed \<Rightarrow> source)"

text \<open>
  \<^verbatim>\<open>scan(f, seed)\<close> keeps an accumulator that starts at the seed; every value of the source
  is combined into the accumulator, and the new accumulator is emitted. The seed itself is
  not emitted.
\<close>

fun scan_list :: "('b \<Rightarrow> 'a \<Rightarrow> 'b) \<Rightarrow> 'b \<Rightarrow> 'a list \<Rightarrow> 'b list" where
  "scan_list f acc [] = []"
| "scan_list f acc (x # xs) = f acc x # scan_list f (f acc x) xs"

definition scan_obs :: "('b \<Rightarrow> 'a \<Rightarrow> 'b) \<Rightarrow> 'b \<Rightarrow> 'a observable \<Rightarrow> 'b observable" where
  "scan_obs f seed source = Observable (scan_list f seed (emits source)) (ending source)"

definition map_obs :: "('a \<Rightarrow> 'b) \<Rightarrow> 'a observable \<Rightarrow> 'b observable" where
  "map_obs f source = Observable (map f (emits source)) (ending source)"

text \<open>
  \<^verbatim>\<open>distinctUntilChanged(compare)\<close> emits the first value, and afterwards every value that
  \<^verbatim>\<open>compare\<close> does not equate with the value emitted last.
\<close>

fun distinct_list :: "('a \<Rightarrow> 'a \<Rightarrow> bool) \<Rightarrow> 'a option \<Rightarrow> 'a list \<Rightarrow> 'a list" where
  "distinct_list compare k [] = []"
| "distinct_list compare None (x # xs) = x # distinct_list compare (Some x) xs"
| "distinct_list compare (Some k) (x # xs) =
     (if compare k x then distinct_list compare (Some k) xs
      else x # distinct_list compare (Some x) xs)"

definition distinctUntilChanged :: "('a \<Rightarrow> 'a \<Rightarrow> bool) \<Rightarrow> 'a observable \<Rightarrow> 'a observable" where
  "distinctUntilChanged compare source =
     Observable (distinct_list compare None (emits source)) (ending source)"

subsection \<open>Timed observables\<close>

text \<open>
  Where the moment of an emission matters, a value is paired with the time of its
  emission, in milliseconds.

  \<^verbatim>\<open>observeOn(animationFrameScheduler)\<close> hands every notification over in the animation frame
  that follows it: the values and their order stay, the time of a value becomes the time
  of that frame. The parameter \<open>animationFrame\<close> gives, for a time, the time of the
  animation frame that follows.
\<close>

definition observeOn :: "(nat \<Rightarrow> nat) \<Rightarrow> (nat \<times> 'a) observable \<Rightarrow> (nat \<times> 'a) observable" where
  "observeOn animationFrame source =
     Observable (map (\<lambda>(t, x). (animationFrame t, x)) (emits source)) (ending source)"

text \<open>
  \<^verbatim>\<open>throttleTime(duration)\<close> with its default configuration (leading, not trailing): a
  value that arrives while no throttle timer is pending is emitted and starts the timer; a
  value that arrives while the timer is pending is dropped. The state \<open>throttled\<close> is the
  time at which the pending timer fires, if one is pending; a value that arrives at that
  very time counts as arriving after the timer has fired.
\<close>

fun throttle_list :: "nat \<Rightarrow> nat option \<Rightarrow> (nat \<times> 'a) list \<Rightarrow> (nat \<times> 'a) list" where
  "throttle_list duration throttled [] = []"
| "throttle_list duration None ((t, x) # xs) =
     (t, x) # throttle_list duration (Some (t + duration)) xs"
| "throttle_list duration (Some until) ((t, x) # xs) =
     (if t < until then throttle_list duration (Some until) xs
      else (t, x) # throttle_list duration (Some (t + duration)) xs)"

definition throttleTime :: "nat \<Rightarrow> (nat \<times> 'a) observable \<Rightarrow> (nat \<times> 'a) observable" where
  "throttleTime duration source =
     Observable (throttle_list duration None (emits source)) (ending source)"

section \<open>Drivers and the runner\<close>

text \<open>
  The types of TypeScript are gone when the program runs: a function declared to take a
  stream is called with whatever the caller hands to it. What \<^verbatim>\<open>run\<close> can hand to a
  driver is a stream or, since the lookup \<^verbatim>\<open>sinks[key]\<close> also finds what an object
  inherits, a member of \<^verbatim>\<open>Object.prototype\<close>, given here by its name.
\<close>

datatype 'o argument = Stream "'o observable" | Inherited string

text \<open>
  The three kinds of driver. \<^verbatim>\<open>receive\<close> is called with the stream that the component
  produced for the driver and returns the stream of what the driver did with it
  (\<^verbatim>\<open>Observable<void>\<close> in the source: the values are the effects); like every function it
  may raise instead.
\<close>

datatype ('i, 'o, 'r) Driver =
    SinkOnly (receive: "'o argument \<Rightarrow> error + 'r observable")
  | SourceOnly (provide: 'i)
  | Full (provide: 'i) (receive: "'o argument \<Rightarrow> error + 'r observable")

definition sinkDriver :: "('o argument \<Rightarrow> error + 'r observable) \<Rightarrow> ('i, 'o, 'r) Driver" where
  "sinkDriver rcv = SinkOnly rcv"

definition sourceDriver :: "'i \<Rightarrow> ('i, 'o, 'r) Driver" where
  "sourceDriver prv = SourceOnly prv"

definition fullDriver ::
  "'i \<Rightarrow> ('o argument \<Rightarrow> error + 'r observable) \<Rightarrow> ('i, 'o, 'r) Driver" where
  "fullDriver prv rcv = Full prv rcv"

text \<open>
  An object with named fields is the map of its own properties; the driver set is the
  list of its entries in the order of \<^verbatim>\<open>Object.keys\<close>, and \<^verbatim>\<open>drivers[key]\<close>, for a key out
  of \<^verbatim>\<open>Object.keys(drivers)\<close>, is the lookup in it.

  What \<^verbatim>\<open>run\<close> does is recorded as the list of the calls it makes, each with its argument:
  the invocation of the component and the calls of the drivers' \<^verbatim>\<open>receive\<close> functions. A
  call of \<^verbatim>\<open>receive\<close> that raises ends \<^verbatim>\<open>run\<close>, which then subscribes to nothing.
\<close>

datatype ('i, 'o) call = is_Invoke: Invoke "string \<rightharpoonup> 'i" | Receive string "'o argument"

record ('i, 'o, 'r) running =
  calls :: "('i, 'o) call list"
  subscribed :: "'r observable list"
  thrown :: "error option"

text \<open>
  The first loop of \<^verbatim>\<open>run\<close>, over \<^verbatim>\<open>Object.keys(drivers)\<close>: a driver that provides a
  capability puts it into \<^verbatim>\<open>sources\<close> under its name.
\<close>

definition source_step ::
  "(string \<times> ('i, 'o, 'r) Driver) list \<Rightarrow> (string \<rightharpoonup> 'i) \<Rightarrow> string \<Rightarrow> (string \<rightharpoonup> 'i)" where
  "source_step drivers sources k =
     (case map_of drivers k of
        Some (SourceOnly prv) \<Rightarrow> sources(k \<mapsto> prv)
      | Some (Full prv rcv) \<Rightarrow> sources(k \<mapsto> prv)
      | Some (SinkOnly rcv) \<Rightarrow> sources
      | None \<Rightarrow> sources)"

definition collect_sources :: "(string \<times> ('i, 'o, 'r) Driver) list \<Rightarrow> (string \<rightharpoonup> 'i)" where
  "collect_sources drivers = foldl (source_step drivers) Map.empty (map fst drivers)"

text \<open>
  The record that a component returns is an object literal, whose prototype is
  \<^verbatim>\<open>Object.prototype\<close>. The lookup \<^verbatim>\<open>sinks[key]\<close> gives the object's own property of that
  name; if it has none, the member of that name that it inherits; if there is none
  either, \<^verbatim>\<open>undefined\<close>.
\<close>

definition Object_prototype :: "string list" where
  "Object_prototype =
     [''constructor'', ''__defineGetter__'', ''__defineSetter__'', ''hasOwnProperty'',
      ''__lookupGetter__'', ''__lookupSetter__'', ''isPrototypeOf'', ''propertyIsEnumerable'',
      ''toString'', ''valueOf'', ''__proto__'', ''toLocaleString'']"

definition lookup_field :: "(string \<rightharpoonup> 'o observable) \<Rightarrow> string \<Rightarrow> 'o argument option" where
  "lookup_field sinks k =
     (case sinks k of
        Some out \<Rightarrow> Some (Stream out)
      | None \<Rightarrow> if k \<in> set Object_prototype then Some (Inherited k) else None)"

text \<open>
  \<^verbatim>\<open>sinks[key] || NEVER\<close>: a stream is an object and the inherited members are functions
  and objects, all of them truthy; \<^verbatim>\<open>undefined\<close> is not.
\<close>

definition or_NEVER :: "'o argument option \<Rightarrow> 'o argument" where
  "or_NEVER field = (case field of Some found \<Rightarrow> found | None \<Rightarrow> Stream NEVER)"

text \<open>
  \<^verbatim>\<open>sunk.push(drv.receive(...))\<close>: the call is made; what it returns is pushed onto
  \<^verbatim>\<open>sunk\<close>, and what it raises leaves the loop.
\<close>

definition push_received ::
  "string \<Rightarrow> ('o argument \<Rightarrow> error + 'r observable) \<Rightarrow> 'o argument \<Rightarrow>
   ('i, 'o) call list \<Rightarrow> 'r observable list \<Rightarrow>
   ('i, 'o) call list \<times> 'r observable list \<times> error option" where
  "push_received k rcv passed made sunk =
     (case rcv passed of
        Inr out \<Rightarrow> (made @ [Receive k passed], sunk @ [out], None)
      | Inl e \<Rightarrow> (made @ [Receive k passed], sunk, Some e))"

text \<open>
  The second loop of \<^verbatim>\<open>run\<close>: a driver that receives is called with what the lookup of
  its name gives. The state of the loop is the calls made, \<^verbatim>\<open>sunk\<close>, and the error that
  has left the loop, if one has.
\<close>

definition sink_step ::
  "(string \<times> ('i, 'o, 'r) Driver) list \<Rightarrow> (string \<rightharpoonup> 'o observable) \<Rightarrow>
   ('i, 'o) call list \<times> 'r observable list \<times> error option \<Rightarrow> string \<Rightarrow>
   ('i, 'o) call list \<times> 'r observable list \<times> error option" where
  "sink_step drivers sinks state k =
     (case state of
        (made, sunk, Some e) \<Rightarrow> (made, sunk, Some e)
      | (made, sunk, None) \<Rightarrow>
          (case map_of drivers k of
             Some (SinkOnly rcv) \<Rightarrow> push_received k rcv (or_NEVER (lookup_field sinks k)) made sunk
           | Some (Full prv rcv) \<Rightarrow> push_received k rcv (or_NEVER (lookup_field sinks k)) made sunk
           | Some (SourceOnly prv) \<Rightarrow> (made, sunk, None)
           | None \<Rightarrow> (made, sunk, None)))"

definition route_sinks ::
  "(string \<times> ('i, 'o, 'r) Driver) list \<Rightarrow> (string \<rightharpoonup> 'o observable) \<Rightarrow>
   ('i, 'o) call list \<times> 'r observable list \<times> error option \<Rightarrow>
   ('i, 'o) call list \<times> 'r observable list \<times> error option" where
  "route_sinks drivers sinks start = foldl (sink_step drivers sinks) start (map fst drivers)"

text \<open>
  \<^verbatim>\<open>run(drivers)(component)\<close>; the merged subscription it returns is modelled by the list
  of the streams it subscribes to.
\<close>

definition run ::
  "(string \<times> ('i, 'o, 'r) Driver) list \<Rightarrow> ((string \<rightharpoonup> 'i) \<Rightarrow> (string \<rightharpoonup> 'o observable)) \<Rightarrow>
   ('i, 'o, 'r) running" where
  "run drivers component =
     (let sources = collect_sources drivers;
          sinks = component sources
      in case route_sinks drivers sinks ([Invoke sources], [], None) of
           (made, sunk, None) \<Rightarrow> \<lparr>calls = made, subscribed = sunk, thrown = None\<rparr>
         | (made, sunk, Some e) \<Rightarrow> \<lparr>calls = made, subscribed = [], thrown = Some e\<rparr>)"

section \<open>The stateful wrapper\<close>

text \<open>
  The fields of the records that a stateful component takes and returns. The component
  is handed the subject \<^verbatim>\<open>loopback\<close> under \<^verbatim>\<open>state\<close>; the subject is an object of its own,
  which the wrapper feeds after the component has returned, so the component receives it
  as a token and what the subject emits is part of the wrapper's result. The reducers that
  a component emits may depend on the states it has seen: the model takes the stream of
  reducers as it came out.
\<close>

datatype 'i source_field = Loopback | Provided 'i

datatype ('s, 'o) sink_field = Reducers "('s \<Rightarrow> 's) observable" | Other 'o

record ('s, 'o) wrapped =
  returned :: "string \<rightharpoonup> ('s, 'o) sink_field"
  loopback :: "'s observable"

text \<open>
  The type of the component (\<^verbatim>\<open>O extends { state: Observable<Reducer<S>> }\<close>) promises a
  stream of reducers under \<^verbatim>\<open>state\<close>; for a record that breaks the promise the model gives
  no result.
\<close>

definition stateful ::
  "'s \<Rightarrow> ((string \<rightharpoonup> 'i source_field) \<Rightarrow> (string \<rightharpoonup> ('s, 'o) sink_field)) \<Rightarrow>
   (string \<rightharpoonup> 'i source_field) \<Rightarrow> ('s, 'o) wrapped option" where
  "stateful initial component inputs =
     (let sinks = component (inputs(''state'' \<mapsto> Loopback)) in
      case sinks ''state'' of
        Some (Reducers state) \<Rightarrow>
          (let reduced = scan_obs (\<lambda>s f. f s) initial (concat_obs state (of_obs (\<lambda>s. s)))
           in Some \<lparr>returned = sinks(''state'' := None), loopback = reduced\<rparr>)
      | Some (Other other) \<Rightarrow> None
      | None \<Rightarrow> None)"

section \<open>The DOM driver\<close>

record Size2d =
  width :: real
  height :: real

text \<open>
  The document, as the driver uses it: \<^verbatim>\<open>querySelector\<close> gives the first matching node or
  \<^verbatim>\<open>null\<close> and raises a \<^verbatim>\<open>SyntaxError\<close> on a string that is no selector; \<^verbatim>\<open>fromEvent\<close> is the
  stream of the events of one name on a node; \<^verbatim>\<open>clientWidth\<close> and \<^verbatim>\<open>clientHeight\<close> of a
  node are read at a time.
\<close>

record ('n, 'e) document =
  querySelector :: "string \<Rightarrow> error + 'n option"
  fromEvent :: "'n \<Rightarrow> string \<Rightarrow> 'e observable"
  clientWidth :: "'n \<Rightarrow> nat \<Rightarrow> real"
  clientHeight :: "'n \<Rightarrow> nat \<Rightarrow> real"

text \<open>
  The capability of the DOM driver. \<^verbatim>\<open>dimensions\<close> also returns what it wrote to the
  console; its \<^verbatim>\<open>sampleInterval\<close> is given by the times of its ticks, whose values the
  driver does not read.
\<close>

record 'e DOM =
  mousemove :: "string \<Rightarrow> error + 'e observable"
  keydown :: "string \<Rightarrow> error + 'e observable"
  keyup :: "string \<Rightarrow> error + 'e observable"
  keypress :: "string \<Rightarrow> error + 'e observable"
  dimensions :: "string \<Rightarrow> nat observable \<Rightarrow> error + Size2d observable \<times> string list"

definition attach :: "('n, 'e) document \<Rightarrow> string \<Rightarrow> string \<Rightarrow> error + 'e observable" where
  "attach doc selector event =
     (case querySelector doc selector of
        Inl raised \<Rightarrow> Inl raised
      | Inr (Some node) \<Rightarrow> Inr (fromEvent doc node event)
      | Inr None \<Rightarrow> Inr NEVER)"

definition makeDOMDriver :: "('n, 'e) document \<Rightarrow> ('e DOM, 'o, 'r) Driver" where
  "makeDOMDriver doc = sourceDriver
     \<lparr>mousemove = (\<lambda>selector. attach doc selector ''mousemove''),
      keydown = (\<lambda>selector. attach doc selector ''keydown''),
      keyup = (\<lambda>selector. attach doc selector ''keyup''),
      keypress = (\<lambda>selector. attach doc selector ''keypress''),
      dimensions = (\<lambda>selector sampleInterval.
        case querySelector doc selector of
          Inl raised \<Rightarrow> Inl raised
        | Inr (Some node) \<Rightarrow>
            Inr (distinctUntilChanged (\<lambda>x y. width x = width y \<and> height x = height y)
                   (map_obs (\<lambda>t. \<lparr>width = clientWidth doc node t,
                                   height = clientHeight doc node t\<rparr>) sampleInterval),
                 [])
        | Inr None \<Rightarrow> Inr (NEVER, [''invalid dimensions selector'']))\<rparr>"

section \<open>The canvas driver\<close>

text \<open>
  The 2d context of the canvas is modelled by the calls made on it (setting
  \<^verbatim>\<open>ctx.fillStyle\<close> counts as one). \<^verbatim>\<open>drawImpl\<close> switches on the tag of the operation; its
  switch has no case for \<^verbatim>\<open>StrokeStyle\<close>, which falls through it and calls nothing.
\<close>

datatype ctx_call =
    CtxBeginPath
  | CtxClearRect real real real real
  | CtxFillRect real real real real
  | CtxSetFillStyle style
  | CtxArc real real real real real "bool option"
  | CtxFill
  | CtxStroke

fun drawImpl :: "ctx_call list \<Rightarrow> DrawOp \<Rightarrow> ctx_call list" where
  "drawImpl ctx BeginPath = ctx @ [CtxBeginPath]"
| "drawImpl ctx (ClearRect x y w h) = ctx @ [CtxClearRect x y w h]"
| "drawImpl ctx (FillRect x y w h) = ctx @ [CtxFillRect x y w h]"
| "drawImpl ctx (FillStyle s) = ctx @ [CtxSetFillStyle s]"
| "drawImpl ctx (Arc x y r sAngle eAngle anticlockwise) =
     ctx @ [CtxArc x y r sAngle eAngle anticlockwise]"
| "drawImpl ctx Fill = ctx @ [CtxFill]"
| "drawImpl ctx Stroke = ctx @ [CtxStroke]"
| "drawImpl ctx (StrokeStyle s) = ctx"

text \<open>
  \<^verbatim>\<open>draw\<close> takes a fresh view of the context of the canvas and runs the generator to its
  end, one \<^verbatim>\<open>drawImpl\<close> for every value; it returns nothing, and its effect, the calls
  made on the canvas, is its value here.
\<close>

fun draw_loop :: "ctx_call list \<Rightarrow> DrawOp list \<Rightarrow> ctx_call list" where
  "draw_loop ctx [] = ctx"
| "draw_loop ctx (cur # rest) = draw_loop (drawImpl ctx cur) rest"

definition draw :: "'c \<Rightarrow> Draw \<Rightarrow> 'c \<times> ctx_call list" where
  "draw canvas d = (canvas, draw_loop [] (gen d))"

text \<open>
  The sink of the canvas driver: the Draws are handed over in animation frames, throttled
  with a duration of one millisecond, and drawn. Draws come with the time of their
  arrival, the drawings with the time at which they are made. The function starts with
  \<^verbatim>\<open>draws.pipe(...)\<close>, which on a value that has no method \<^verbatim>\<open>pipe\<close> raises a
  \<^verbatim>\<open>TypeError\<close>.
\<close>

definition makeCanvasDriver ::
  "(nat \<Rightarrow> nat) \<Rightarrow> 'c \<Rightarrow> ('i, nat \<times> Draw, nat \<times> 'c \<times> ctx_call list) Driver" where
  "makeCanvasDriver animationFrame el = sinkDriver (\<lambda>passed.
     case passed of
       Stream draws \<Rightarrow>
         Inr (map_obs (\<lambda>(t, d). (t, draw el d))
                (throttleTime 1 (observeOn animationFrame draws)))
     | Inherited member \<Rightarrow> Inl TypeError)"

section \<open>Properties of the drawing-operation algebra\<close>

lemma gen_foldl_and_draw:
  "gen (foldl and_draw d ds) = gen d @ concat (map gen ds)"
  by (induction ds arbitrary: d) (simp_all add: and_draw_def)

text \<open>
  Claim C2. The flattened traversal of \<^verbatim>\<open>and(a, b)\<close> is the traversal of \<^verbatim>\<open>a\<close> followed by
  the traversal of \<^verbatim>\<open>b\<close>; for a non-empty sequence of Draws, \<^verbatim>\<open>all\<close> returns a Draw whose
  traversal is the concatenation of the traversals of the elements, in their order.
\<close>

theorem all_draws_gen_concat:
  assumes "seq \<noteq> []"
  shows "gen (and_draw a b) = gen a @ gen b \<and>
         (\<exists>d. all_draws seq = Inr d \<and> gen d = concat (map gen seq))"
proof -
  obtain x xs where seq: "seq = x # xs"
    using assms by (cases seq) auto
  have "gen (foldl and_draw x xs) = concat (map gen (x # xs))"
    by (simp add: gen_foldl_and_draw)
  then show ?thesis
    by (simp add: seq all_draws_def and_draw_def)
qed

theorem all_draws_gen_concat_witness:
  "[clearRect 0 0 10 10, fillRect 1 1 2 2] \<noteq> [] \<and>
   gen (and_draw (clearRect 0 0 10 10) (fillRect 1 1 2 2)) =
     [ClearRect 0 0 10 10, FillRect 1 1 2 2] \<and>
   (\<exists>d. all_draws [clearRect 0 0 10 10, fillRect 1 1 2 2] = Inr d \<and>
        gen d = [ClearRect 0 0 10 10, FillRect 1 1 2 2])"
  using all_draws_gen_concat [of "[clearRect 0 0 10 10, fillRect 1 1 2 2]"
      "clearRect 0 0 10 10" "fillRect 1 1 2 2"]
  by (simp add: clearRect_def fillRect_def)

text \<open>
  Claim C4. \<^verbatim>\<open>all\<close> on the empty sequence raises (the \<^verbatim>\<open>TypeError\<close> of \<^verbatim>\<open>reduce\<close>) and
  returns no Draw; on a non-empty sequence it returns a Draw.
\<close>

theorem all_draws_empty_raises:
  "all_draws [] = Inl TypeError \<and> (\<exists>r. all_draws (d # ds) = Inr r)"
  by (simp add: all_draws_def)

text \<open>
  Claim C9. Composition is associative up to the flattened traversal, and \<^verbatim>\<open>all\<close> on a
  singleton returns its element, with no \<^verbatim>\<open>And\<close> node around it.
\<close>

theorem and_draw_assoc_all_singleton:
  "gen (and_draw (and_draw a b) c) = gen (and_draw a (and_draw b c)) \<and>
   all_draws [d] = Inr d"
  by (simp add: all_draws_def and_draw_def)

section \<open>Properties of the key-tracking helpers\<close>

text \<open>
  Claim C10. After \<^verbatim>\<open>keyUp(e)\<close> the list has no occurrence of \<^verbatim>\<open>e.key\<close>; after
  \<^verbatim>\<open>keyDown(e)\<close> it has exactly one, as its last element; so a repeated key-down event
  of a held key leaves the list as the first one made it.
\<close>

theorem keyDown_no_duplicates:
  "key e \<notin> set (keyUp e ks) \<and>
   count_list (keyDown e ks) (key e) = 1 \<and>
   last (keyDown e ks) = key e \<and>
   keyDown e (keyDown e ks) = keyDown e ks"
proof -
  have none: "count_list (filter (\<lambda>k. k \<noteq> key e) ks) (key e) = 0"
    by (induction ks) simp_all
  show ?thesis
    by (simp add: keyUp_def keyDown_def snoc_def none)
qed

section \<open>Properties of the stateful wrapper\<close>

lemma scan_list_foldl:
  "scan_list f acc xs = map (\<lambda>n. foldl f acc (take (Suc n) xs)) [0..<length xs]"
proof (induction xs arbitrary: acc)
  case Nil
  then show ?case by simp
next
  case (Cons x xs)
  have "map (\<lambda>n. foldl f acc (take (Suc n) (x # xs))) [0..<length (x # xs)] =
        foldl f acc [x] # map (\<lambda>n. foldl f acc (take (Suc n) (x # xs))) (map Suc [0..<length xs])"
    by (simp add: upt_conv_Cons map_Suc_upt del: upt_Suc)
  also have "\<dots> = f acc x # map (\<lambda>n. foldl f (f acc x) (take (Suc n) xs)) [0..<length xs]"
    by simp
  finally show ?case
    using Cons.IH [of "f acc x"] by simp
qed

lemma reduced_emits:
  "emits (scan_obs (\<lambda>s f. f s) initial (concat_obs (Observable reducers e) (of_obs (\<lambda>s. s)))) =
   map (\<lambda>n. foldl (\<lambda>s f. f s) initial (take n reducers)) [0..<Suc (length reducers)]"
proof -
  have "emits (scan_obs (\<lambda>s f. f s) initial (concat_obs (Observable reducers e) (of_obs (\<lambda>s. s)))) =
        initial # scan_list (\<lambda>s f. f s) initial reducers"
    by (simp add: scan_obs_def concat_obs_def of_obs_def)
  also have "\<dots> = initial # map (\<lambda>n. foldl (\<lambda>s f. f s) initial (take (Suc n) reducers)) [0..<length reducers]"
    by (simp only: scan_list_foldl)
  also have "\<dots> = map (\<lambda>n. foldl (\<lambda>s f. f s) initial (take n reducers)) (0 # map Suc [0..<length reducers])"
    by (simp add: comp_def)
  also have "0 # map Suc [0..<length reducers] = [0..<Suc (length reducers)]"
    by (simp add: upt_conv_Cons map_Suc_upt del: upt_Suc)
  finally show ?thesis .
qed

text \<open>
  Claim C1. Whatever reducers the inner component emits on \<^verbatim>\<open>state\<close>, the states that
  \<^verbatim>\<open>stateful\<close> feeds into the loop are first the initial state and then, after the n-th
  reducer, the left fold of the first n reducers over the initial state. Its instance for
  the initial state 0 and the reducers \<^verbatim>\<open>x => x + 1\<close>, \<^verbatim>\<open>x => x * 2\<close>, the states 0, 1, 2,
  is the theorem after it.
\<close>

theorem stateful_left_fold:
  assumes "component (inputs(''state'' \<mapsto> Loopback)) ''state'' =
           Some (Reducers (Observable reducers e))"
  shows "\<exists>w. stateful initial component inputs = Some w \<and>
           hd (emits (loopback w)) = initial \<and>
           emits (loopback w) =
             map (\<lambda>n. foldl (\<lambda>s f. f s) initial (take n reducers)) [0..<Suc (length reducers)]"
proof -
  let ?w = "\<lparr>returned = (component (inputs(''state'' \<mapsto> Loopback)))(''state'' := None),
             loopback = scan_obs (\<lambda>s f. f s) initial
               (concat_obs (Observable reducers e) (of_obs (\<lambda>s. s)))\<rparr>"
  have "stateful initial component inputs = Some ?w"
    using assms by (simp add: stateful_def Let_def)
  moreover have "emits (loopback ?w) =
      map (\<lambda>n. foldl (\<lambda>s f. f s) initial (take n reducers)) [0..<Suc (length reducers)]"
    by (simp only: reduced_emits wrapped.simps)
  moreover have "hd (emits (loopback ?w)) = initial"
    by (simp add: scan_obs_def concat_obs_def of_obs_def)
  ultimately show ?thesis by blast
qed

theorem stateful_left_fold_witness:
  "(\<lambda>inputs. [''state'' \<mapsto> Reducers (Observable [\<lambda>x. x + 1, \<lambda>x. x * 2] Running)])
     (Map.empty(''state'' \<mapsto> Loopback)) ''state'' =
     Some (Reducers (Observable [\<lambda>x. x + 1, \<lambda>x. x * 2] Running)) \<and>
   (\<exists>w. stateful (0 :: real)
          (\<lambda>inputs. [''state'' \<mapsto> Reducers (Observable [\<lambda>x. x + 1, \<lambda>x. x * 2] Running)])
          Map.empty = Some w \<and>
        hd (emits (loopback w)) = 0 \<and>
        emits (loopback w) = [0, 1, 2])"
  using stateful_left_fold [of
      "\<lambda>inputs. [''state'' \<mapsto> Reducers (Observable [\<lambda>x. x + 1, \<lambda>x. x * 2] Running)]"
      Map.empty "[\<lambda>x. x + 1, \<lambda>x. x * 2]" Running "0 :: real"]
  by (simp add: upt_conv_Cons del: upt_Suc)

text \<open>
  Claim C5. The record that the wrapped component returns has no field \<^verbatim>\<open>state\<close>, and
  every other field is the field of the inner component's record.
\<close>

theorem stateful_hides_state:
  assumes "component (inputs(''state'' \<mapsto> Loopback)) ''state'' = Some (Reducers state)"
  shows "\<exists>w. stateful initial component inputs = Some w \<and>
           returned w ''state'' = None \<and>
           (\<forall>k. k \<noteq> ''state'' \<longrightarrow>
              returned w k = component (inputs(''state'' \<mapsto> Loopback)) k)"
  using assms by (simp add: stateful_def Let_def)



theorem stateful_hides_state_witness:
  "(\<lambda>inputs. [''state'' \<mapsto> Reducers NEVER, ''draws'' \<mapsto> Other (5 :: nat)])
     ([''dom'' \<mapsto> Provided (1 :: nat)](''state'' \<mapsto> Loopback)) ''state'' =
     Some (Reducers (NEVER :: (real \<Rightarrow> real) observable)) \<and>
   (\<exists>w. stateful (0 :: real)
          (\<lambda>inputs. [''state'' \<mapsto> Reducers NEVER, ''draws'' \<mapsto> Other (5 :: nat)])
          [''dom'' \<mapsto> Provided (1 :: nat)] = Some w \<and>
        returned w ''state'' = None \<and>
        returned w ''draws'' = Some (Other 5))"
  using stateful_hides_state [of
      "\<lambda>inputs. [''state'' \<mapsto> Reducers NEVER, ''draws'' \<mapsto> Other (5 :: nat)]"
      "[''dom'' \<mapsto> Provided (1 :: nat)]" "NEVER :: (real \<Rightarrow> real) observable" "0 :: real"]
  by auto

section \<open>Properties of the runner\<close>








text \<open>
  Where the lookup of the driver's name finds nothing, also nothing inherited, the
  driver is called with \<^verbatim>\<open>NEVER\<close>: the three lemmas lead to that.
\<close>

lemma foldl_sink_step_thrown:
  "foldl (sink_step drivers sinks) (made, sunk, Some e) ks = (made, sunk, Some e)"
  by (induction ks) (simp_all add: sink_step_def)

lemma foldl_sink_step_grows:
  assumes "foldl (sink_step drivers sinks) (made, sunk, t) ks = (made', sunk', t')"
  shows "set made \<subseteq> set made' \<and> set sunk \<subseteq> set sunk'"
  using assms
proof (induction ks arbitrary: made sunk t)
  case Nil
  then show ?case by simp
next
  case (Cons a ks)
  obtain made1 sunk1 t1 where step: "sink_step drivers sinks (made, sunk, t) a = (made1, sunk1, t1)"
    by (cases "sink_step drivers sinks (made, sunk, t) a")
  then have "set made \<subseteq> set made1 \<and> set sunk \<subseteq> set sunk1"
    by (auto simp: sink_step_def push_received_def
        split: option.splits Driver.splits sum.splits)
  moreover have "set made1 \<subseteq> set made' \<and> set sunk1 \<subseteq> set sunk'"
    using Cons.IH [of made1 sunk1 t1] Cons.prems by (simp add: step)
  ultimately show ?case by blast
qed

lemma foldl_sink_step_receives:
  assumes "foldl (sink_step drivers sinks) (made, sunk, None) ks = (made', sunk', None)"
    and "k \<in> set ks"
    and "map_of drivers k = Some d"
    and "d = SinkOnly rcv \<or> d = Full prv rcv"
  shows "Receive k (or_NEVER (lookup_field sinks k)) \<in> set made' \<and>
         (\<exists>out. rcv (or_NEVER (lookup_field sinks k)) = Inr out \<and> out \<in> set sunk')"
  using assms(1,2)
proof (induction ks arbitrary: made sunk)
  case Nil
  then show ?case by simp
next
  case (Cons a ks)
  obtain made1 sunk1 t1 where step: "sink_step drivers sinks (made, sunk, None) a = (made1, sunk1, t1)"
    by (cases "sink_step drivers sinks (made, sunk, None) a")
  have rest: "foldl (sink_step drivers sinks) (made1, sunk1, t1) ks = (made', sunk', None)"
    using Cons.prems(1) by (simp add: step)
  have quiet: "t1 = None"
  proof (cases t1)
    case None
    then show ?thesis .
  next
    case (Some e)
    with rest show ?thesis
      by (simp add: foldl_sink_step_thrown)
  qed
  show ?case
  proof (cases "a = k")
    case True
    let ?passed = "or_NEVER (lookup_field sinks k)"
    have pushed: "push_received k rcv ?passed made sunk = (made1, sunk1, None)"
      using step assms(3,4) by (auto simp: True quiet sink_step_def)
    then obtain out where out: "rcv ?passed = Inr out"
      and "made1 = made @ [Receive k ?passed]" and "sunk1 = sunk @ [out]"
      by (auto simp: push_received_def split: sum.splits)
    then have "Receive k ?passed \<in> set made1" and "out \<in> set sunk1"
      by simp_all
    with foldl_sink_step_grows [OF rest] out show ?thesis
      by blast
  next
    case False
    with Cons.prems(2) have "k \<in> set ks" by simp
    from Cons.IH [OF rest [unfolded quiet] this] show ?thesis .
  qed
qed

lemma run_missing_own_name_gets_NEVER:
  assumes keys: "distinct (map fst drivers)"
    and entry: "(k, d) \<in> set drivers"
    and sink: "d = SinkOnly rcv \<or> d = Full prv rcv"
    and missing: "component (collect_sources drivers) k = None"
    and ordinary: "k \<notin> set Object_prototype"
    and quiet: "thrown (run drivers component) = None"
  shows "Receive k (Stream NEVER) \<in> set (calls (run drivers component)) \<and>
         (\<exists>out. rcv (Stream NEVER) = Inr out \<and> out \<in> set (subscribed (run drivers component)))"
proof -
  let ?sinks = "component (collect_sources drivers)"
  obtain made sunk t where routed:
    "route_sinks drivers ?sinks ([Invoke (collect_sources drivers)], [], None) = (made, sunk, t)"
    by (cases "route_sinks drivers ?sinks ([Invoke (collect_sources drivers)], [], None)")
  have t: "t = None"
    using quiet by (cases t) (simp_all add: run_def Let_def routed)
  have result: "calls (run drivers component) = made" "subscribed (run drivers component) = sunk"
    by (simp_all add: run_def Let_def routed t)
  have look: "map_of drivers k = Some d"
    using keys entry by simp
  have key: "k \<in> set (map fst drivers)"
    using entry by force
  have passed: "or_NEVER (lookup_field ?sinks k) = Stream NEVER"
    using missing ordinary by (simp add: or_NEVER_def lookup_field_def)
  from foldl_sink_step_receives [OF routed [unfolded route_sinks_def t] key look sink]
  show ?thesis
    by (simp only: result passed)
qed

text \<open>
  Claim C3 fails on the code for a driver whose name is a member that every object
  inherits. The driver set has the one entry \<^verbatim>\<open>toString\<close>, the canvas driver, and the
  component returns the empty record: the lookup finds the inherited function, which is
  truthy, so the driver is called with that function and not with \<^verbatim>\<open>NEVER\<close>; its
  \<^verbatim>\<open>draws.pipe\<close> raises, \<^verbatim>\<open>run\<close> fails and subscribes to nothing.
\<close>

theorem run_inherited_name_receives_member:
  "calls (run [(''toString'', makeCanvasDriver (\<lambda>t. 16 * (t div 16 + 1)) (0 :: nat))]
            (\<lambda>sources. Map.empty)) =
     [Invoke Map.empty, Receive ''toString'' (Inherited ''toString'')] \<and>
   thrown (run [(''toString'', makeCanvasDriver (\<lambda>t. 16 * (t div 16 + 1)) (0 :: nat))]
            (\<lambda>sources. Map.empty)) = Some TypeError \<and>
   subscribed (run [(''toString'', makeCanvasDriver (\<lambda>t. 16 * (t div 16 + 1)) (0 :: nat))]
            (\<lambda>sources. Map.empty)) = []"
  by (simp add: run_def route_sinks_def sink_step_def push_received_def or_NEVER_def
      lookup_field_def Object_prototype_def collect_sources_def source_step_def
      makeCanvasDriver_def sinkDriver_def)


section \<open>Properties of the DOM driver\<close>

text \<open>
  Claim C7. For a selector that matches no element, every capability of the DOM driver
  returns \<^verbatim>\<open>NEVER\<close>, the stream with no value, no error and no completion, and does not
  raise.
\<close>

theorem dom_missing_selector_never:
  assumes "querySelector doc selector = Inr None"
  shows "mousemove (provide (makeDOMDriver doc)) selector = Inr NEVER \<and>
         keydown (provide (makeDOMDriver doc)) selector = Inr NEVER \<and>
         keyup (provide (makeDOMDriver doc)) selector = Inr NEVER \<and>
         keypress (provide (makeDOMDriver doc)) selector = Inr NEVER \<and>
         dimensions (provide (makeDOMDriver doc)) selector sampleInterval =
           Inr (NEVER, [''invalid dimensions selector'']) \<and>
         emits (NEVER :: 'e observable) = [] \<and> ending (NEVER :: 'e observable) = Running \<and>
         emits (NEVER :: Size2d observable) = [] \<and> ending (NEVER :: Size2d observable) = Running"
  using assms by (simp add: makeDOMDriver_def sourceDriver_def attach_def NEVER_def)

theorem dom_missing_selector_never_witness:
  "querySelector
     \<lparr>querySelector = (\<lambda>s. if s = ''#main'' then Inr (Some (0 :: nat)) else Inr None),
      fromEvent = (\<lambda>node event. Observable [event] Running),
      clientWidth = (\<lambda>node t. 800), clientHeight = (\<lambda>node t. 600)\<rparr> ''#missing'' = Inr None \<and>
   keydown (provide (makeDOMDriver
     \<lparr>querySelector = (\<lambda>s. if s = ''#main'' then Inr (Some (0 :: nat)) else Inr None),
      fromEvent = (\<lambda>node event. Observable [event] Running),
      clientWidth = (\<lambda>node t. 800), clientHeight = (\<lambda>node t. 600)\<rparr>)) ''#missing'' =
     Inr (Observable [] Running) \<and>
   keydown (provide (makeDOMDriver
     \<lparr>querySelector = (\<lambda>s. if s = ''#main'' then Inr (Some (0 :: nat)) else Inr None),
      fromEvent = (\<lambda>node event. Observable [event] Running),
      clientWidth = (\<lambda>node t. 800), clientHeight = (\<lambda>node t. 600)\<rparr>)) ''#main'' =
     Inr (Observable [''keydown''] Running)"
  using dom_missing_selector_never [of
      "\<lparr>querySelector = (\<lambda>s. if s = ''#main'' then Inr (Some (0 :: nat)) else Inr None),
        fromEvent = (\<lambda>node event. Observable [event] Running),
        clientWidth = (\<lambda>node t. 800), clientHeight = (\<lambda>node t. 600)\<rparr>" "''#missing''"]
  by (simp add: NEVER_def makeDOMDriver_def sourceDriver_def attach_def)

section \<open>Properties of the canvas driver\<close>

lemma drawImpl_append: "drawImpl ctx operation = ctx @ drawImpl [] operation"
  by (cases operation) simp_all

lemma draw_loop_concat: "draw_loop ctx ops = ctx @ concat (map (drawImpl []) ops)"
proof (induction ops arbitrary: ctx)
  case Nil
  then show ?case by simp
next
  case (Cons cur rest)
  have "draw_loop ctx (cur # rest) = drawImpl ctx cur @ concat (map (drawImpl []) rest)"
    by (simp add: Cons.IH)
  also have "\<dots> = ctx @ drawImpl [] cur @ concat (map (drawImpl []) rest)"
    by (subst drawImpl_append) simp
  finally show ?case by simp
qed

lemma draw_strokeStyle_calls_nothing: "draw el (strokeStyle s) = (el, [])"
  by (simp add: draw_def strokeStyle_def)

lemma drawImpl_one_call:
  assumes "\<forall>s. StrokeStyle s \<notin> set ops"
  shows "list_all2 (\<lambda>operation c. drawImpl [] operation = [c]) ops
           (concat (map (drawImpl []) ops))"
  using assms
proof (induction ops)
  case Nil
  then show ?case by simp
next
  case (Cons cur rest)
  then show ?case by (cases cur) auto
qed

lemma throttle_spaced:
  "(\<forall>y \<in> set (throttle_list d (Some u) xs). u \<le> fst y) \<and>
   sorted_wrt (\<lambda>a b. a + d \<le> b) (map fst (throttle_list d (Some u) xs))"
proof (induction xs arbitrary: u)
  case Nil
  then show ?case by simp
next
  case (Cons e xs)
  obtain t x where e: "e = (t, x)" by (cases e)
  show ?case
  proof (cases "t < u")
    case True
    then show ?thesis using Cons.IH [of u] by (simp add: e)
  next
    case False
    then show ?thesis using Cons.IH [of "t + d"] by (auto simp: e)
  qed
qed

lemma throttle_times_increase:
  "sorted_wrt (<) (map fst (throttle_list 1 None xs))"
proof (cases xs)
  case Nil
  then show ?thesis by simp
next
  case (Cons e rest)
  obtain t x where e: "e = (t, x)" by (cases e)
  have "sorted_wrt (\<lambda>a b. a + 1 \<le> b) (map fst (throttle_list 1 None xs))"
    using throttle_spaced [of 1 "t + 1" rest] by (auto simp: Cons e)
  then show ?thesis
    by (rule sorted_wrt_mono_rel [rotated]) simp
qed

lemma throttle_after:
  assumes "sorted (map fst ys)" and "\<forall>y \<in> set ys. p \<le> fst y"
  shows "throttle_list 1 (Some (p + 1)) ys =
         nths ys {i. (if i = 0 then p else fst (ys ! (i - 1))) < fst (ys ! i)}"
  using assms
proof (induction ys arbitrary: p)
  case Nil
  then show ?case by simp
next
  case (Cons e rest)
  obtain t x where e: "e = (t, x)" by (cases e)
  let ?A = "{i. (if i = 0 then p else fst ((e # rest) ! (i - 1))) < fst ((e # rest) ! i)}"
  let ?B = "\<lambda>q. {j. (if j = 0 then q else fst (rest ! (j - 1))) < fst (rest ! j)}"
  have later: "\<forall>y \<in> set rest. t \<le> fst y" and sorted_rest: "sorted (map fst rest)"
    using Cons.prems(1) by (auto simp: e)
  have at_least: "p \<le> t" and rest_at_least: "\<forall>y \<in> set rest. p \<le> fst y"
    using Cons.prems(2) by (auto simp: e)
  have shift: "{j. Suc j \<in> ?A} = ?B t"
    by (auto simp: e nth_Cons')
  have zero: "0 \<in> ?A \<longleftrightarrow> p < t"
    by (simp add: e)
  have split: "nths (e # rest) ?A = (if p < t then [e] else []) @ nths rest (?B t)"
    by (simp only: nths_Cons shift zero)
  show ?case
  proof (cases "p < t")
    case True
    then have "throttle_list 1 (Some (p + 1)) (e # rest) =
               e # throttle_list 1 (Some (t + 1)) rest"
      by (simp add: e)
    also have "\<dots> = e # nths rest (?B t)"
      by (simp only: Cons.IH [OF sorted_rest later])
    also have "\<dots> = nths (e # rest) ?A"
      using True by (simp only: split) simp
    finally show ?thesis .
  next
    case False
    with at_least have same: "t = p" by simp
    from False have "throttle_list 1 (Some (p + 1)) (e # rest) =
               throttle_list 1 (Some (p + 1)) rest"
      by (simp add: e)
    also have "\<dots> = nths rest (?B p)"
      by (simp only: Cons.IH [OF sorted_rest rest_at_least])
    also have "\<dots> = nths (e # rest) ?A"
      using False by (simp only: split same) simp
    finally show ?thesis .
  qed
qed

lemma throttle_first_of_each_time:
  assumes "sorted (map fst ys)"
  shows "throttle_list 1 None ys =
         nths ys {i. i = 0 \<or> fst (ys ! (i - 1)) < fst (ys ! i)}"
proof (cases ys)
  case Nil
  then show ?thesis by simp
next
  case (Cons e rest)
  obtain t x where e: "e = (t, x)" by (cases e)
  let ?A = "{i. i = 0 \<or> fst ((e # rest) ! (i - 1)) < fst ((e # rest) ! i)}"
  let ?B = "{j. (if j = 0 then t else fst (rest ! (j - 1))) < fst (rest ! j)}"
  have later: "\<forall>y \<in> set rest. t \<le> fst y" and sorted_rest: "sorted (map fst rest)"
    using assms by (auto simp: Cons e)
  have shift: "{j. Suc j \<in> ?A} = ?B"
    by (auto simp: e nth_Cons')
  have zero: "0 \<in> ?A"
    by simp
  have split: "nths (e # rest) ?A = e # nths rest ?B"
    by (simp only: nths_Cons shift zero) simp
  have "throttle_list 1 None (e # rest) = e # throttle_list 1 (Some (t + 1)) rest"
    by (simp add: e)
  also have "\<dots> = e # nths rest ?B"
    by (simp only: throttle_after [OF sorted_rest later])
  also have "\<dots> = nths (e # rest) ?A"
    by (simp only: split)
  finally show ?thesis
    by (simp only: Cons)
qed

lemma nths_in_range: "nths xs A = nths xs {i. i < length xs \<and> i \<in> A}"
  unfolding nths_def
  by (rule arg_cong [where f = "map fst"], rule filter_cong) (auto dest: set_zip_rightD)

lemma canvas_emits:
  "receive (makeCanvasDriver animationFrame el) (Stream draws) =
     Inr (Observable
       (map (\<lambda>(t, d). (t, draw el d))
          (throttle_list 1 None (map (\<lambda>(t, d). (animationFrame t, d)) (emits draws))))
       (ending draws))"
  by (simp add: makeCanvasDriver_def sinkDriver_def map_obs_def throttleTime_def observeOn_def)

lemma mono_sorted_map:
  assumes "mono f" and "sorted xs"
  shows "sorted (map f xs)"
  using assms(2) by (induction xs) (auto dest: monoD [OF assms(1)])

lemma delivered_sorted:
  assumes "sorted (map fst evs)" and "mono animationFrame"
  shows "sorted (map fst (map (\<lambda>(t, d). (animationFrame t, d)) evs))"
proof -
  have "map fst (map (\<lambda>(t, d). (animationFrame t, d)) evs) = map animationFrame (map fst evs)"
    by (simp add: case_prod_unfold comp_def)
  then show ?thesis
    by (simp only: mono_sorted_map [OF assms(2) assms(1)])
qed

text \<open>
  Claim C8, as the code has it. The Draws come with nondecreasing times of arrival, and
  the time of the animation frame grows with the time. A Draw is drawn exactly when it is
  the first to arrive or is handed over in a later animation frame than the Draw before
  it: of the Draws handed over in one animation frame the first is drawn and the later
  ones are dropped. The drawings are made in the order of arrival and at strictly
  increasing times. One drawing makes the calls of \<^verbatim>\<open>drawImpl\<close> for the operations of
  the Draw in the order of its traversal; for a Draw without a \<^verbatim>\<open>StrokeStyle\<close> that is one
  call for each operation.
\<close>

theorem canvas_renders_first_of_each_frame:
  assumes arrivals: "sorted (map fst (emits draws))"
    and frames: "mono animationFrame"
  shows "\<exists>out. receive (makeCanvasDriver animationFrame el) (Stream draws) = Inr out \<and>
         emits out =
           map (\<lambda>(t, d). (animationFrame t, draw el d))
             (nths (emits draws)
                {i. i < length (emits draws) \<and>
                    (i = 0 \<or> animationFrame (fst (emits draws ! (i - 1))) <
                               animationFrame (fst (emits draws ! i)))}) \<and>
         sorted_wrt (<) (map fst (emits out)) \<and>
         snd (draw el d) = concat (map (drawImpl []) (gen d)) \<and>
         ((\<forall>s. StrokeStyle s \<notin> set (gen d)) \<longrightarrow>
            list_all2 (\<lambda>operation c. drawImpl [] operation = [c]) (gen d) (snd (draw el d)))"
proof -
  let ?evs = "emits draws"
  let ?deliver = "\<lambda>(t, d). (animationFrame t, d :: Draw)"
  let ?ys = "map ?deliver ?evs"
  let ?I = "{i. i < length ?evs \<and>
                (i = 0 \<or> animationFrame (fst (?evs ! (i - 1))) < animationFrame (fst (?evs ! i)))}"
  let ?out = "Observable (map (\<lambda>(t, d). (t, draw el d)) (throttle_list 1 None ?ys)) (ending draws)"
  have "throttle_list 1 None ?ys = nths ?ys {i. i = 0 \<or> fst (?ys ! (i - 1)) < fst (?ys ! i)}"
    by (rule throttle_first_of_each_time [OF delivered_sorted [OF arrivals frames]])
  also have "\<dots> = nths ?ys {i. i < length ?ys \<and> i \<in> {i. i = 0 \<or> fst (?ys ! (i - 1)) < fst (?ys ! i)}}"
    by (rule nths_in_range)
  also have "{i. i < length ?ys \<and> i \<in> {i. i = 0 \<or> fst (?ys ! (i - 1)) < fst (?ys ! i)}} = ?I"
  proof (rule Collect_cong)
    fix i
    show "(i < length ?ys \<and> i \<in> {i. i = 0 \<or> fst (?ys ! (i - 1)) < fst (?ys ! i)}) =
          (i < length ?evs \<and>
             (i = 0 \<or> animationFrame (fst (?evs ! (i - 1))) < animationFrame (fst (?evs ! i))))"
    proof (cases "i < length ?evs")
      case True
      then have "i - 1 < length ?evs" by simp
      then show ?thesis
        using True by (simp add: case_prod_unfold)
    next
      case False
      then show ?thesis by simp
    qed
  qed
  also have "nths ?ys ?I = map ?deliver (nths ?evs ?I)"
    by (rule nths_map)
  finally have kept: "throttle_list 1 None ?ys = map ?deliver (nths ?evs ?I)" .
  have received: "receive (makeCanvasDriver animationFrame el) (Stream draws) = Inr ?out"
    by (rule canvas_emits)
  have rendered: "emits ?out = map (\<lambda>(t, d). (animationFrame t, draw el d)) (nths ?evs ?I)"
    by (simp only: kept) (simp add: case_prod_unfold comp_def)
  have same_times: "map fst (emits ?out) = map fst (throttle_list 1 None ?ys)"
    by (simp add: case_prod_unfold comp_def)
  have times: "sorted_wrt (<) (map fst (emits ?out))"
    unfolding same_times by (rule throttle_times_increase)
  have full: "snd (draw el d) = concat (map (drawImpl []) (gen d))"
    by (simp add: draw_def draw_loop_concat)
  have each: "(\<forall>s. StrokeStyle s \<notin> set (gen d)) \<longrightarrow>
            list_all2 (\<lambda>operation c. drawImpl [] operation = [c]) (gen d) (snd (draw el d))"
    by (simp only: full) (simp add: drawImpl_one_call)
  from received rendered times full each show ?thesis by blast
qed

text \<open>
  Claim C8 as stated fails: two Draws arrive before the same animation frame (at 0 ms and
  5 ms, the frame at 16 ms); the first is drawn and the second, the latest, never is.
\<close>

theorem canvas_latest_counterexample:
  "receive (makeCanvasDriver (\<lambda>t. 16 * (t div 16 + 1)) (0 :: nat))
     (Stream (Observable
        [(0, fillStyle (StyleString ''red'')), (5, fillStyle (StyleString ''blue''))]
        Running)) =
     Inr (Observable [(16, 0, [CtxSetFillStyle (StyleString ''red'')])] Running) \<and>
   (16, draw (0 :: nat) (fillStyle (StyleString ''blue''))) \<notin>
     set (emits (Observable [(16 :: nat, 0 :: nat, [CtxSetFillStyle (StyleString ''red'')])]
       Running))"
  by (simp add: makeCanvasDriver_def sinkDriver_def map_obs_def throttleTime_def observeOn_def
      draw_def fillStyle_def)

theorem canvas_renders_first_of_each_frame_witness:
  "sorted (map fst (emits (Observable
       [(0 :: nat, fillStyle (StyleString ''red'')), (5, fillStyle (StyleString ''blue'')),
        (20, stroke)]
       Running))) \<and>
   mono (\<lambda>t :: nat. 16 * (t div 16 + 1)) \<and>
   receive (makeCanvasDriver (\<lambda>t. 16 * (t div 16 + 1)) (0 :: nat))
     (Stream (Observable
       [(0, fillStyle (StyleString ''red'')), (5, fillStyle (StyleString ''blue'')), (20, stroke)]
       Running)) =
     Inr (Observable
       [(16, 0, [CtxSetFillStyle (StyleString ''red'')]), (32, 0, [CtxStroke])] Running) \<and>
   sorted_wrt (<) (map fst
     [(16 :: nat, 0 :: nat, [CtxSetFillStyle (StyleString ''red'')]), (32, 0, [CtxStroke])]) \<and>
   list_all2 (\<lambda>operation c. drawImpl [] operation = [c])
     (gen (And (clearRect 0 0 10 10) (fillRect 1 1 2 2)))
     (snd (draw (0 :: nat) (And (clearRect 0 0 10 10) (fillRect 1 1 2 2))))"
proof -
  let ?draws = "Observable
       [(0 :: nat, fillStyle (StyleString ''red'')), (5, fillStyle (StyleString ''blue'')),
        (20, stroke)]
       Running"
  let ?rendered = "[(16 :: nat, 0 :: nat, [CtxSetFillStyle (StyleString ''red'')]),
       (32, 0, [CtxStroke])]"
  have arrivals: "sorted (map fst (emits ?draws))"
    by simp
  have frames: "mono (\<lambda>t :: nat. 16 * (t div 16 + 1))"
    by (simp add: mono_def div_le_mono)
  have no_stroke_style:
    "\<forall>s. StrokeStyle s \<notin> set (gen (And (clearRect 0 0 10 10) (fillRect 1 1 2 2)))"
    by (simp add: clearRect_def fillRect_def)
  have received: "receive (makeCanvasDriver (\<lambda>t. 16 * (t div 16 + 1)) (0 :: nat)) (Stream ?draws) =
     Inr (Observable ?rendered Running)"
    by (simp add: makeCanvasDriver_def sinkDriver_def map_obs_def throttleTime_def observeOn_def
        draw_def fillStyle_def stroke_def)
  from canvas_renders_first_of_each_frame [OF arrivals frames,
      of "0 :: nat" "And (clearRect 0 0 10 10) (fillRect 1 1 2 2)"]
  obtain out where out: "receive (makeCanvasDriver (\<lambda>t. 16 * (t div 16 + 1)) (0 :: nat))
        (Stream ?draws) = Inr out"
    and times: "sorted_wrt (<) (map fst (emits out))"
    and each: "(\<forall>s. StrokeStyle s \<notin> set (gen (And (clearRect 0 0 10 10) (fillRect 1 1 2 2)))) \<longrightarrow>
       list_all2 (\<lambda>operation c. drawImpl [] operation = [c])
         (gen (And (clearRect 0 0 10 10) (fillRect 1 1 2 2)))
         (snd (draw (0 :: nat) (And (clearRect 0 0 10 10) (fillRect 1 1 2 2))))"
    by blast
  from out [unfolded received] have "out = Observable ?rendered Running"
    by simp
  with times have sorted_times: "sorted_wrt (<) (map fst ?rendered)"
    by simp
  from each no_stroke_style have ops: "list_all2 (\<lambda>operation c. drawImpl [] operation = [c])
         (gen (And (clearRect 0 0 10 10) (fillRect 1 1 2 2)))
         (snd (draw (0 :: nat) (And (clearRect 0 0 10 10) (fillRect 1 1 2 2))))"
    by (rule mp)
  show ?thesis
    by (intro conjI arrivals frames received sorted_times ops)
qed

end
